theory Spec2Isabelle
  imports Main "HOL-Library.Word"
begin

unbundle bit_operations_syntax

section \<open>Bytes, byte views and errors\<close>

type_synonym byte = "8 word"

text \<open>
  Modelled from the spec: the type \<open>ByteView\<close> (its declaring file is not among the
  sources): an immutable view of a byte sequence with equality by content; \<open>ByteSlice\<close>
  hands out a copy of the bytes and \<open>Len\<close> their number. The codecs build views with the
  struct literal \<open>ByteView{b: body}\<close>, so the single field is \<open>b\<close>. A nil slice and an
  empty slice have the same content and are both \<open>[]\<close>.
\<close>

datatype ByteView = ByteView (b: "byte list")

definition ByteSlice :: "ByteView \<Rightarrow> byte list" where
  "ByteSlice v = b v"

definition Len :: "ByteView \<Rightarrow> int" where
  "Len v = int (length (b v))"

definition ByteView_zero :: ByteView where
  "ByteView_zero = ByteView []"

text \<open>
  A Go \<open>error\<close> is a value with a message. The sentinel errors of the libraries the
  codecs call are constructors of their own; \<open>errors_New\<close> carries the message of an
  error built by \<open>fmt.Errorf\<close> or \<open>errors.New\<close>. \<open>Unmodelled\<close> marks input that the
  library would process and this model does not follow.
\<close>

datatype error =
    io_EOF
  | io_ErrUnexpectedEOF
  | gzip_ErrHeader
  | gzip_ErrChecksum
  | flate_CorruptInputError
  | errors_New string
  | Unmodelled string

fun Error :: "error \<Rightarrow> string" where
  "Error io_EOF = ''EOF''"
| "Error io_ErrUnexpectedEOF = ''unexpected EOF''"
| "Error gzip_ErrHeader = ''gzip: invalid header''"
| "Error gzip_ErrChecksum = ''gzip: invalid checksum''"
| "Error flate_CorruptInputError = ''flate: corrupt input''"
| "Error (errors_New s) = s"
| "Error (Unmodelled s) = s"

text \<open>A panic ends the call without a result.\<close>

datatype panic = nil_dereference | panic_message string

section \<open>Codecs\<close>

text \<open>
  The interface \<open>Codec\<close> is a pair of methods; \<open>Encode\<close> and \<open>Decode\<close> return either
  an error (\<open>Inl\<close>) or their result.
\<close>

record Codec =
  Encode :: "ByteView \<Rightarrow> error + byte list"
  Decode :: "byte list \<Rightarrow> error + ByteView"

definition RawCodec_Encode :: "ByteView \<Rightarrow> error + byte list" where
  "RawCodec_Encode view = Inr (ByteSlice view)"

definition RawCodec_Decode :: "byte list \<Rightarrow> error + ByteView" where
  "RawCodec_Decode body = Inr (ByteView body)"

definition RawDecode :: "byte list \<Rightarrow> error + ByteView" where
  "RawDecode body = Inr (ByteView body)"

definition RawCodec :: Codec where
  "RawCodec = \<lparr>Encode = RawCodec_Encode, Decode = RawCodec_Decode\<rparr>"

subsection \<open>The library under the gzip codec\<close>

text \<open>
  \<open>hash/crc32\<close>: the IEEE checksum, bit by bit with the reflected polynomial.
\<close>

definition crc32_bit :: "32 word \<Rightarrow> 32 word" where
  "crc32_bit c = (if c AND 1 = 1 then drop_bit 1 c XOR 0xEDB88320 else drop_bit 1 c)"

definition crc32_byte :: "byte \<Rightarrow> 32 word \<Rightarrow> 32 word" where
  "crc32_byte x c = (crc32_bit ^^ 8) (c XOR ucast x)"

definition crc32_Update :: "32 word \<Rightarrow> byte list \<Rightarrow> 32 word" where
  "crc32_Update crc p = NOT (fold crc32_byte p (NOT crc))"

definition crc32_ChecksumIEEE :: "byte list \<Rightarrow> 32 word" where
  "crc32_ChecksumIEEE p = crc32_Update 0 p"

text \<open>
  \<open>compress/gzip\<close> and \<open>compress/flate\<close>, as far as the codec uses them. A gzip member
  is a 10-byte header, a sequence of DEFLATE blocks of which the last carries the final
  bit, and an 8-byte trailer with the CRC-32 and the length of the data. The writer
  emits the header on the first \<open>Write\<close>, a block that ends on a byte boundary (an empty
  stored block, the sync marker) on \<open>Flush\<close>, and the final block and the trailer only on
  \<open>Close\<close>. The reader wants the final block and the trailer, and reports
  \<open>io.ErrUnexpectedEOF\<close> when the input ends before them.

  The block bodies are modelled as stored (uncompressed) blocks, the encoding of
  \<open>gzip.NoCompression\<close>; at the default level, which the codec uses, the library
  writes Huffman-coded bodies inside the same framing. So the bytes of the model for a
  view that is not empty are not the bytes of the program; the header, the sync marker,
  the final block, the trailer and their order are. A block of the Huffman types in the
  input is \<open>Unmodelled\<close>.
  A header with optional fields (\<open>FLG \<noteq> 0\<close>) is \<open>Unmodelled\<close> too. The writer's
  destination is a \<open>bytes.Buffer\<close>, whose \<open>Write\<close> returns no error, so the writer has
  no error state.
\<close>

definition le16 :: "nat \<Rightarrow> byte list" where
  "le16 n = [of_nat (n mod 256), of_nat (n div 256 mod 256)]"

definition le32 :: "32 word \<Rightarrow> byte list" where
  "le32 x = [ucast x, ucast (drop_bit 8 x), ucast (drop_bit 16 x), ucast (drop_bit 24 x)]"

definition get16 :: "byte \<Rightarrow> byte \<Rightarrow> nat" where
  "get16 lo hi = unat lo + 256 * unat hi"

definition get32 :: "byte \<Rightarrow> byte \<Rightarrow> byte \<Rightarrow> byte \<Rightarrow> 32 word" where
  "get32 b0 b1 b2 b3 =
     ucast b0 OR push_bit 8 (ucast b1) OR push_bit 16 (ucast b2) OR push_bit 24 (ucast b3)"

definition stored_block :: "bool \<Rightarrow> byte list \<Rightarrow> byte list" where
  "stored_block final d =
     (if final then 1 else 0) # le16 (length d) @ le16 (65535 - length d) @ d"

function stored_blocks :: "byte list \<Rightarrow> byte list" where
  "stored_blocks d =
     (if d = [] then [] else stored_block False (take 65535 d) @ stored_blocks (drop 65535 d))"
  by pat_completeness auto
termination
  by (relation "measure length") auto

declare stored_blocks.simps [simp del]

definition gzip_header :: "byte list" where
  "gzip_header = [0x1f, 0x8b, 8, 0, 0, 0, 0, 0, 0, 255]"

record gzip_Writer =
  w :: "byte list"
  wroteHeader :: bool
  closed :: bool
  digest :: "32 word"
  size :: "32 word"

definition gzip_NewWriter :: "byte list \<Rightarrow> gzip_Writer" where
  "gzip_NewWriter buf =
     \<lparr>w = buf, wroteHeader = False, closed = False, digest = 0, size = 0\<rparr>"

definition gzip_Write :: "gzip_Writer \<Rightarrow> byte list \<Rightarrow> gzip_Writer" where
  "gzip_Write z p =
     (let z1 = (if \<not> wroteHeader z then z\<lparr>w := w z @ gzip_header, wroteHeader := True\<rparr>
                else z)
      in z1\<lparr>size := size z1 + of_nat (length p),
             digest := crc32_Update (digest z1) p,
             w := w z1 @ stored_blocks p\<rparr>)"

definition gzip_Flush :: "gzip_Writer \<Rightarrow> gzip_Writer" where
  "gzip_Flush z =
     (if closed z then z
      else let z1 = (if \<not> wroteHeader z then gzip_Write z [] else z)
           in z1\<lparr>w := w z1 @ stored_block False []\<rparr>)"

definition gzip_Close :: "gzip_Writer \<Rightarrow> gzip_Writer" where
  "gzip_Close z =
     (if closed z then z
      else let z1 = (if \<not> wroteHeader z then gzip_Write z [] else z)
           in z1\<lparr>closed := True,
                  w := w z1 @ stored_block True [] @ le32 (digest z1) @ le32 (size z1)\<rparr>)"

text \<open>
  The reader. \<open>inflate acc bs\<close> reads blocks from \<open>bs\<close> up to the final one and returns
  the data (after \<open>acc\<close>) and the unread input.
\<close>

fun inflate :: "byte list \<Rightarrow> byte list \<Rightarrow> error + byte list \<times> byte list" where
  "inflate acc (h # l0 # l1 # n0 # n1 # rest) =
     (if drop_bit 1 h AND 3 = 0 then
        (if get16 n0 n1 \<noteq> 65535 - get16 l0 l1 then Inl flate_CorruptInputError
         else if length rest < get16 l0 l1 then Inl io_ErrUnexpectedEOF
         else if h AND 1 = 1 then Inr (acc @ take (get16 l0 l1) rest, drop (get16 l0 l1) rest)
         else inflate (acc @ take (get16 l0 l1) rest) (drop (get16 l0 l1) rest))
      else if drop_bit 1 h AND 3 = 3 then Inl flate_CorruptInputError
      else Inl (Unmodelled ''flate: Huffman-coded block''))"
| "inflate acc (h # rest) =
     (if drop_bit 1 h AND 3 = 0 then Inl io_ErrUnexpectedEOF
      else if drop_bit 1 h AND 3 = 3 then Inl flate_CorruptInputError
      else Inl (Unmodelled ''flate: Huffman-coded block''))"
| "inflate acc [] = Inl io_ErrUnexpectedEOF"

text \<open>
  \<open>readHeader\<close>: the unread input after the header, or the error. An empty input is
  \<open>io.EOF\<close>, a shorter header \<open>io.ErrUnexpectedEOF\<close>.
\<close>

definition gzip_readHeader :: "byte list \<Rightarrow> error + byte list" where
  "gzip_readHeader bs =
     (if bs = [] then Inl io_EOF
      else if length bs < 10 then Inl io_ErrUnexpectedEOF
      else if bs ! 0 \<noteq> 0x1f \<or> bs ! 1 \<noteq> 0x8b \<or> bs ! 2 \<noteq> 8 then Inl gzip_ErrHeader
      else if bs ! 3 \<noteq> 0 then Inl (Unmodelled ''gzip: header with optional fields'')
      else Inr (drop 10 bs))"

text \<open>
  One member after its header: the blocks, then the trailer with the checksum and
  the size of the data.
\<close>

definition gzip_readMember :: "byte list \<Rightarrow> error + byte list \<times> byte list" where
  "gzip_readMember bs =
     (case inflate [] bs of
        Inl err \<Rightarrow> Inl err
      | Inr (d, rest) \<Rightarrow>
          if length rest < 8 then Inl io_ErrUnexpectedEOF
          else if get32 (rest ! 0) (rest ! 1) (rest ! 2) (rest ! 3) \<noteq> crc32_ChecksumIEEE d
                \<or> get32 (rest ! 4) (rest ! 5) (rest ! 6) (rest ! 7) \<noteq> of_nat (length d)
          then Inl gzip_ErrChecksum
          else Inr (d, drop 8 rest))"

text \<open>
  \<open>res.ReadFrom(reader)\<close> after \<open>gzip.NewReader\<close> has read the first header: the data
  of the member and of every member that follows it; the input has to end right after a
  trailer. Every member is shorter input, which is why the loop ends.
\<close>

lemma inflate_rest_length:
  "inflate acc bs = Inr (d, rest) \<Longrightarrow> length rest \<le> length bs"
  by (induction acc bs rule: inflate.induct) (auto split: if_splits)

lemma gzip_readMember_rest_length:
  "gzip_readMember bs = Inr (d, rest) \<Longrightarrow> length rest \<le> length bs"
proof -
  assume m: "gzip_readMember bs = Inr (d, rest)"
  then obtain r where r: "inflate [] bs = Inr (d, r)" "rest = drop 8 r"
    by (auto simp: gzip_readMember_def split: sum.splits if_splits)
  from inflate_rest_length[OF r(1)] r(2) show ?thesis by simp
qed

lemma gzip_readHeader_rest_length:
  "gzip_readHeader bs = Inr rest \<Longrightarrow> length rest < length bs"
  by (auto simp: gzip_readHeader_def split: if_splits)

function gzip_ReadFrom :: "byte list \<Rightarrow> error + byte list" where
  "gzip_ReadFrom bs =
     (case gzip_readMember bs of
        Inl err \<Rightarrow> Inl err
      | Inr (d, rest) \<Rightarrow>
          (case gzip_readHeader rest of
             Inl err \<Rightarrow> (if err = io_EOF then Inr d else Inl err)
           | Inr rest' \<Rightarrow>
               (case gzip_ReadFrom rest' of Inl err \<Rightarrow> Inl err | Inr d' \<Rightarrow> Inr (d @ d'))))"
  by pat_completeness auto
termination
proof (relation "measure length")
  show "wf (measure length)" by simp
next
  fix bs :: "byte list" and x and d rest rest'
  assume "gzip_readMember bs = Inr x" "(d, rest) = x" "gzip_readHeader rest = Inr rest'"
  then have "length rest \<le> length bs" "length rest' < length rest"
    by (auto dest: gzip_readMember_rest_length gzip_readHeader_rest_length)
  then show "(rest', bs) \<in> measure length" by simp
qed

declare gzip_ReadFrom.simps [simp del]

subsection \<open>The gzip codec\<close>

text \<open>
  \<open>GzipCodec.Encode\<close>. The deferred \<open>writer.Close()\<close> runs after the operand of the
  \<open>return\<close> statement, \<open>b.Bytes()\<close>, has been evaluated: the result is the contents of
  the buffer after \<open>Flush\<close>, and what \<open>Close\<close> appends reaches the buffer and not the
  result. \<open>GzipCodec_Encode_run\<close> returns both, the result and the buffer as the
  deferred call leaves it.
\<close>

definition GzipCodec_Encode_run :: "ByteView \<Rightarrow> (error + byte list) \<times> byte list" where
  "GzipCodec_Encode_run view =
     (let writer = gzip_NewWriter [];
          writer1 = gzip_Write writer (ByteSlice view);
          writer2 = gzip_Flush writer1;
          result = w writer2;
          writer3 = gzip_Close writer2
      in (Inr result, w writer3))"

definition GzipCodec_Encode :: "ByteView \<Rightarrow> error + byte list" where
  "GzipCodec_Encode view = fst (GzipCodec_Encode_run view)"

definition GzipCodec_Decode :: "byte list \<Rightarrow> error + ByteView" where
  "GzipCodec_Decode body =
     (case gzip_readHeader body of
        Inl err \<Rightarrow> Inl err
      | Inr rest \<Rightarrow>
          (case gzip_ReadFrom rest of
             Inl err \<Rightarrow> Inl err
           | Inr res \<Rightarrow> Inr (ByteView res)))"

definition GzipCodec :: Codec where
  "GzipCodec = \<lparr>Encode = GzipCodec_Encode, Decode = GzipCodec_Decode\<rparr>"

section \<open>Times\<close>

text \<open>
  A \<open>time.Time\<close> is the number of nanoseconds since the zero instant of the type, so
  that the zero value \<open>var expire time.Time\<close> is 0; a \<open>time.Duration\<close> is a number of
  nanoseconds. The clock reading \<open>time.Now()\<close> is an argument of every operation that
  takes it. \<open>Time.Add\<close> is the sum; the ends of the representable range, where the
  library saturates, are left out.
\<close>

type_synonym Time = int
type_synonym Duration = int

definition IsZero :: "Time \<Rightarrow> bool" where
  "IsZero t = (t = 0)"

definition Time_Add :: "Time \<Rightarrow> Duration \<Rightarrow> Time" where
  "Time_Add t d = t + d"

section \<open>The LRU\<close>

text \<open>
  Modelled from the spec: package \<open>lru\<close> is imported by the cache and is not among the
  sources. An entry is (key, value, optional expire timestamp); the recency sequence is a
  list whose head is the most recently used entry. \<open>Add\<close> replaces an entry of the same key
  or inserts a new one at the most recently used end, then removes least recently used
  entries while the total of \<open>len(key) + value.Len()\<close> exceeds a positive budget. \<open>Get\<close>
  misses on an absent key, removes an entry whose expire is set and not after now (a miss),
  and otherwise promotes the entry. The evict callback is nil in this program.
\<close>

record entry =
  key :: string
  val :: ByteView
  expire :: Time

record lru_Cache =
  maxBytes :: int
  ll :: "entry list"

definition entry_size :: "entry \<Rightarrow> int" where
  "entry_size e = int (length (key e)) + Len (val e)"

definition lru_Bytes :: "entry list \<Rightarrow> int" where
  "lru_Bytes es = sum_list (map entry_size es)"

definition lru_New :: "int \<Rightarrow> lru_Cache" where
  "lru_New mx = \<lparr>maxBytes = mx, ll = []\<rparr>"

function RemoveOldest_while :: "int \<Rightarrow> entry list \<Rightarrow> entry list" where
  "RemoveOldest_while mx es =
     (if 0 < mx \<and> mx < lru_Bytes es then RemoveOldest_while mx (butlast es) else es)"
  by pat_completeness auto
termination
proof (relation "measure (\<lambda>(mx, es). length es)")
  show "wf (measure (\<lambda>(mx, es). length es))" by simp
next
  fix mx :: int and es :: "entry list"
  assume "0 < mx \<and> mx < lru_Bytes es"
  then have "es \<noteq> []" by (auto simp: lru_Bytes_def)
  then show "((mx, butlast es), (mx, es)) \<in> measure (\<lambda>(mx, es). length es)"
    by simp
qed

declare RemoveOldest_while.simps [simp del]

definition lru_Add :: "lru_Cache \<Rightarrow> string \<Rightarrow> ByteView \<Rightarrow> Time \<Rightarrow> lru_Cache" where
  "lru_Add c k v ex =
     (let e = \<lparr>key = k, val = v, expire = ex\<rparr>;
          es = e # filter (\<lambda>x. key x \<noteq> k) (ll c)
      in c\<lparr>ll := RemoveOldest_while (maxBytes c) es\<rparr>)"

definition expired :: "entry \<Rightarrow> Time \<Rightarrow> bool" where
  "expired e now = (\<not> IsZero (expire e) \<and> expire e \<le> now)"

definition lru_Get :: "lru_Cache \<Rightarrow> string \<Rightarrow> Time \<Rightarrow> ByteView option \<times> lru_Cache" where
  "lru_Get c k now =
     (case find (\<lambda>x. key x = k) (ll c) of
        None \<Rightarrow> (None, c)
      | Some e \<Rightarrow>
          if expired e now then (None, c\<lparr>ll := filter (\<lambda>x. key x \<noteq> k) (ll c)\<rparr>)
          else (Some (val e), c\<lparr>ll := e # filter (\<lambda>x. key x \<noteq> k) (ll c)\<rparr>))"

section \<open>The concurrent cache\<close>

text \<open>
  The struct \<open>cache\<close>: the LRU pointer is nil until the first add. The mutex serialises
  the operations; each operation is one atomic state transformer here.
\<close>

record cache =
  lru :: "lru_Cache option"
  cacheBytes :: int
  ttl :: Duration

definition cache_add :: "cache \<Rightarrow> string \<Rightarrow> ByteView \<Rightarrow> Time \<Rightarrow> cache" where
  "cache_add c k v now =
     (let l = (case lru c of None \<Rightarrow> lru_New (cacheBytes c) | Some l \<Rightarrow> l);
          ex = (if ttl c \<noteq> 0 then Time_Add now (ttl c) else 0)
      in c\<lparr>lru := Some (lru_Add l k v ex)\<rparr>)"

definition cache_get :: "cache \<Rightarrow> string \<Rightarrow> Time \<Rightarrow> (ByteView \<times> bool) \<times> cache" where
  "cache_get c k now =
     (case lru c of
        None \<Rightarrow> ((ByteView_zero, False), c)
      | Some l \<Rightarrow>
          (case lru_Get l k now of
             (Some v, l') \<Rightarrow> ((v, True), c\<lparr>lru := Some l'\<rparr>)
           | (None, l') \<Rightarrow> ((ByteView_zero, False), c\<lparr>lru := Some l'\<rparr>)))"

text \<open>A run of lookups, each with its key and its clock reading, threading the cache.\<close>

fun cache_gets :: "cache \<Rightarrow> (string \<times> Time) list \<Rightarrow> (ByteView \<times> bool) list \<times> cache" where
  "cache_gets c [] = ([], c)"
| "cache_gets c ((k, now) # qs) =
     (let (r, c') = cache_get c k now; (rs, c'') = cache_gets c' qs in (r # rs, c''))"

section \<open>Strings and URLs\<close>

text \<open>
  The functions of \<open>strings\<close>, \<open>strconv\<close> and \<open>net/url\<close> that the pool calls. A Go
  string is a sequence of bytes, here of \<open>char\<close>s; \<open>[]byte(s)\<close> is \<open>bytes_of\<close>.
\<close>

definition bytes_of :: "string \<Rightarrow> byte list" where
  "bytes_of s = map (\<lambda>c. of_nat (of_char c)) s"

definition HasPrefix :: "string \<Rightarrow> string \<Rightarrow> bool" where
  "HasPrefix s prefix = (length prefix \<le> length s \<and> take (length prefix) s = prefix)"

fun Index :: "string \<Rightarrow> string \<Rightarrow> nat option" where
  "Index [] sep = (if sep = [] then Some 0 else None)"
| "Index (c # cs) sep =
     (if HasPrefix (c # cs) sep then Some 0 else map_option Suc (Index cs sep))"

text \<open>
  \<open>strings.SplitN\<close> for a separator that is not empty: no substrings for \<open>n = 0\<close>, all
  of them for \<open>n < 0\<close>, and at most \<open>n\<close> otherwise, the last being the unsplit
  remainder.
\<close>

fun genSplit :: "nat \<Rightarrow> string \<Rightarrow> string \<Rightarrow> string list" where
  "genSplit 0 s sep = [s]"
| "genSplit (Suc n) s sep =
     (case Index s sep of
        None \<Rightarrow> [s]
      | Some i \<Rightarrow> take i s # genSplit n (drop (i + length sep) s) sep)"

definition SplitN :: "string \<Rightarrow> string \<Rightarrow> int \<Rightarrow> string list" where
  "SplitN s sep n =
     (if n = 0 then []
      else if n < 0 then genSplit (length s) s sep
      else genSplit (nat n - 1) s sep)"

text \<open>
  The segments of a path in the words of the spec: its parts between slashes.
\<close>

definition segments :: "string \<Rightarrow> string list" where
  "segments s = SplitN s ''/'' (- 1)"

definition digit :: "nat \<Rightarrow> char" where
  "digit d = ''0123456789'' ! d"

function Itoa :: "nat \<Rightarrow> string" where
  "Itoa n = (if n < 10 then [digit n] else Itoa (n div 10) @ [digit (n mod 10)])"
  by pat_completeness auto
termination
  by (relation "measure id") auto

declare Itoa.simps [simp del]

text \<open>
  \<open>url.QueryEscape\<close>: letters, digits and \<open>- _ . ~\<close> are kept, a space becomes
  \<open>+\<close>, and every other byte becomes \<open>%\<close> and its two upper-case hexadecimal digits.
\<close>

definition upperhex :: string where
  "upperhex = ''0123456789ABCDEF''"

definition isAlnum :: "char \<Rightarrow> bool" where
  "isAlnum c = (let n = (of_char c :: nat)
                in (97 \<le> n \<and> n \<le> 122) \<or> (65 \<le> n \<and> n \<le> 90) \<or> (48 \<le> n \<and> n \<le> 57))"

definition shouldEscape :: "char \<Rightarrow> bool" where
  "shouldEscape c =
     (if isAlnum c then False
      else if c \<in> {CHR ''-'', CHR ''_'', CHR ''.'', CHR ''~''} then False
      else True)"

definition pct :: "char \<Rightarrow> string" where
  "pct c = [CHR ''%'', upperhex ! (of_char c div 16), upperhex ! (of_char c mod 16)]"

fun QueryEscape :: "string \<Rightarrow> string" where
  "QueryEscape [] = []"
| "QueryEscape (c # cs) =
     (if shouldEscape c then (if c = CHR '' '' then ''+'' else pct c) else [c]) @ QueryEscape cs"

text \<open>
  Percent-encoding in the words of the spec (RFC 3986): an unreserved character stands
  for itself, every other byte is written \<open>%\<close> and two hexadecimal digits.
\<close>

fun percent_encode :: "string \<Rightarrow> string" where
  "percent_encode [] = []"
| "percent_encode (c # cs) =
     (if isAlnum c \<or> c \<in> {CHR ''-'', CHR ''_'', CHR ''.'', CHR ''~''} then [c] else pct c)
     @ percent_encode cs"

text \<open>
  What the server reads as \<open>r.URL.Path\<close>: the request path with each \<open>%XX\<close> replaced by
  its byte (\<open>net/url\<close> in path mode). A plus sign stays a plus sign; only in a query
  component does it stand for a space. A percent sign without two hexadecimal digits
  is an error (\<open>None\<close>).
\<close>

definition unhex :: "char \<Rightarrow> nat option" where
  "unhex c = (let n = (of_char c :: nat)
              in if 48 \<le> n \<and> n \<le> 57 then Some (n - 48)
                 else if 97 \<le> n \<and> n \<le> 102 then Some (n - 97 + 10)
                 else if 65 \<le> n \<and> n \<le> 70 then Some (n - 65 + 10)
                 else None)"

fun unescape_path :: "string \<Rightarrow> string option" where
  "unescape_path [] = Some []"
| "unescape_path (c # cs) =
     (if c = CHR ''%'' then
        (case cs of
           x # y # rest \<Rightarrow>
             (case (unhex x, unhex y, unescape_path rest) of
                (Some hi, Some lo, Some r) \<Rightarrow> Some (char_of (16 * hi + lo) # r)
              | _ \<Rightarrow> None)
         | _ \<Rightarrow> None)
      else map_option ((#) c) (unescape_path cs))"

section \<open>The consistent-hash ring\<close>

text \<open>
  Modelled from the spec: package \<open>consistenthash\<close> is imported by the pool and is not
  among the sources. The ring is a sequence of hash points with their peers, sorted by
  hash. \<open>New\<close> takes the replica multiplier and the hash function, CRC-32/IEEE when
  none is given. \<open>Add\<close> appends, for each peer \<open>p\<close> and each \<open>i\<close> in \<open>[0, replicas)\<close>,
  the point \<open>hashFn(ascii(i) ++ p)\<close> of \<open>p\<close>, and sorts the ring by hash, stably.
  \<open>Get\<close> returns the empty string for an empty ring and otherwise the peer of the first
  point not below the hash of the key, wrapping to the first point of the ring. The
  pool holds the ring by a pointer that is nil until \<open>Set\<close>; what \<open>Get\<close> does on a nil
  receiver the spec does not say, and it is the argument \<open>nil_Get\<close> here: the result,
  or the panic, of \<open>Get\<close> on the nil pointer for a key.
\<close>

type_synonym Hash = "byte list \<Rightarrow> 32 word"

record consistenthash_Map =
  hash :: Hash
  replicas :: int
  ring :: "(nat \<times> string) list"

definition consistenthash_New :: "int \<Rightarrow> Hash option \<Rightarrow> consistenthash_Map" where
  "consistenthash_New n fn =
     \<lparr>hash = (case fn of None \<Rightarrow> crc32_ChecksumIEEE | Some f \<Rightarrow> f), replicas = n, ring = []\<rparr>"

definition consistenthash_Add :: "consistenthash_Map \<Rightarrow> string list \<Rightarrow> consistenthash_Map" where
  "consistenthash_Add m ps =
     m\<lparr>ring := sort_key fst
        (ring m @ concat (map (\<lambda>p. map (\<lambda>i. (unat (hash m (bytes_of (Itoa i @ p))), p))
                                      [0 ..< nat (replicas m)]) ps))\<rparr>"

definition consistenthash_Get ::
  "(string \<Rightarrow> panic + string) \<Rightarrow> consistenthash_Map option \<Rightarrow> string \<Rightarrow> panic + string" where
  "consistenthash_Get nil_Get mp k =
     (case mp of
        None \<Rightarrow> nil_Get k
      | Some m \<Rightarrow>
          if ring m = [] then Inr ''''
          else (case find (\<lambda>(h, p). unat (hash m (bytes_of k)) \<le> h) (ring m) of
                  Some (h, p) \<Rightarrow> Inr p
                | None \<Rightarrow> Inr (snd (hd (ring m)))))"

section \<open>The HTTP pool\<close>

text \<open>
  Modelled from the spec: the registry \<open>GetGroup\<close> and the lookup \<open>Group.Get\<close> are
  called by the handler and are not among the sources. A group is its name and what its
  \<open>Get\<close> returns for a key, a view or an error; the registry is an argument of the
  handler and maps a name to a group or to nil.
\<close>

record Group =
  name :: string
  Get :: "string \<Rightarrow> error + ByteView"

record HTTPPoolOptions =
  BasePath :: string
  Replicas :: int
  HashFn :: "Hash option"
  Codec :: "Codec option"

record httpGetter =
  baseURL :: string
  decoder :: "byte list \<Rightarrow> error + ByteView"

record HTTPPool =
  self :: string
  opts :: HTTPPoolOptions
  peers :: "consistenthash_Map option"
  httpGetters :: "string \<rightharpoonup> httpGetter"

definition defaultBasePath :: string where
  "defaultBasePath = ''/_yocache/''"

definition defaultReplicas :: int where
  "defaultReplicas = 50"

definition NewHTTPPool :: "string \<Rightarrow> HTTPPoolOptions \<Rightarrow> HTTPPool" where
  "NewHTTPPool slf options =
     (let o1 = (if BasePath options = '''' then options\<lparr>BasePath := defaultBasePath\<rparr>
                else options);
          o2 = (if Replicas o1 = 0 then o1\<lparr>Replicas := defaultReplicas\<rparr> else o1);
          o3 = (if Codec o2 = None then o2\<lparr>Codec := Some RawCodec\<rparr> else o2)
      in \<lparr>self = slf, opts = o3, peers = None, httpGetters = Map.empty\<rparr>)"

text \<open>
  An HTTP request as far as the handler reads it, and what the handler leaves in the
  response writer. \<open>http.Error\<close> sets the plain-text headers, the status and the message
  with a newline; a \<open>Write\<close> with no status set before sends 200. Logging is left out.
\<close>

record Request =
  Method :: string
  URL_Path :: string

record Response =
  status :: int
  header :: "(string \<times> string) list"
  body :: "byte list"

definition http_Error :: "string \<Rightarrow> int \<Rightarrow> Response" where
  "http_Error msg code =
     \<lparr>status = code,
      header = [(''Content-Type'', ''text/plain; charset=utf-8''),
                (''X-Content-Type-Options'', ''nosniff'')],
      body = bytes_of (msg @ [CHR 0x0A])\<rparr>"

definition StatusBadRequest :: int where "StatusBadRequest = 400"
definition StatusNotFound :: int where "StatusNotFound = 404"
definition StatusInternalServerError :: int where "StatusInternalServerError = 500"
definition StatusOK :: int where "StatusOK = 200"

definition ServeHTTP ::
  "HTTPPool \<Rightarrow> (string \<Rightarrow> Group option) \<Rightarrow> Request \<Rightarrow> panic + Response" where
  "ServeHTTP p GetGroup r =
     (if \<not> HasPrefix (URL_Path r) (BasePath (opts p))
      then Inl (panic_message (''HTTPPool serving unexpected path: '' @ URL_Path r))
      else
        let parts = SplitN (drop (length (BasePath (opts p))) (URL_Path r)) ''/'' 2 in
        if length parts \<noteq> 2 then Inr (http_Error ''bad request'' StatusBadRequest)
        else
          let groupName = parts ! 0; key = parts ! 1 in
          case GetGroup groupName of
            None \<Rightarrow> Inr (http_Error (''no such group: '' @ groupName) StatusNotFound)
          | Some grp \<Rightarrow>
              (case Get grp key of
                 Inl err \<Rightarrow> Inr (http_Error (Error err) StatusInternalServerError)
               | Inr view \<Rightarrow>
                   (case Codec (opts p) of
                      None \<Rightarrow> Inl nil_dereference
                    | Some codec \<Rightarrow>
                        (case Encode codec view of
                           Inl err \<Rightarrow> Inr (http_Error (Error err) StatusInternalServerError)
                         | Inr bs \<Rightarrow>
                             Inr \<lparr>status = StatusOK,
                                  header = [(''Content-Type'', ''application/octet-stream'')],
                                  body = bs\<rparr>))))"

text \<open>
  \<open>Set\<close> builds a new ring and a new map of getters. The method value
  \<open>p.opts.Codec.Decode\<close> is taken once for every peer, which panics on a nil codec.
\<close>

definition Set :: "HTTPPool \<Rightarrow> string list \<Rightarrow> panic + HTTPPool" where
  "Set p ps =
     (let m = consistenthash_Add (consistenthash_New (Replicas (opts p)) (HashFn (opts p))) ps in
      case Codec (opts p) of
        None \<Rightarrow>
          if ps = [] then Inr (p\<lparr>peers := Some m, httpGetters := Map.empty\<rparr>)
          else Inl nil_dereference
      | Some codec \<Rightarrow>
          Inr (p\<lparr>peers := Some m,
                 httpGetters :=
                   fold (\<lambda>peer g. g(peer \<mapsto> \<lparr>baseURL = peer @ BasePath (opts p),
                                              decoder = Decode codec\<rparr>))
                     ps Map.empty\<rparr>))"

definition PickPeer ::
  "(string \<Rightarrow> panic + string) \<Rightarrow> HTTPPool \<Rightarrow> string \<Rightarrow> panic + (httpGetter option \<times> bool)" where
  "PickPeer nil_Get p k =
     (case consistenthash_Get nil_Get (peers p) k of
        Inl pn \<Rightarrow> Inl pn
      | Inr peer \<Rightarrow>
          if peer \<noteq> '''' \<and> peer \<noteq> self p then Inr (httpGetters p peer, True)
          else Inr (None, False))"

text \<open>
  The peer client. \<open>http.Get\<close> is an argument: it maps the URL to a transport error or
  to the response, of which the client reads the status code, the status line and the
  body (\<open>ioutil.ReadAll\<close> returns the bytes or an error).
\<close>

record http_Response =
  StatusCode :: int
  Status :: string
  Body :: "error + byte list"

definition fmt_Errorf :: "string \<Rightarrow> string \<Rightarrow> error" where
  "fmt_Errorf prefix v = errors_New (prefix @ v)"

definition httpGetter_URL :: "httpGetter \<Rightarrow> string \<Rightarrow> string \<Rightarrow> string" where
  "httpGetter_URL h grp k = baseURL h @ QueryEscape grp @ ''/'' @ QueryEscape k"

definition httpGetter_Get ::
  "httpGetter \<Rightarrow> (string \<Rightarrow> error + http_Response) \<Rightarrow> string \<Rightarrow> string \<Rightarrow> error + byte list" where
  "httpGetter_Get h http_Get grp k =
     (let u = httpGetter_URL h grp k in
      case http_Get u of
        Inl err \<Rightarrow> Inl err
      | Inr res \<Rightarrow>
          if StatusCode res \<noteq> StatusOK
          then Inl (fmt_Errorf ''server returned: '' (Status res))
          else (case Body res of
                  Inl err \<Rightarrow> Inl (fmt_Errorf ''reading response body: '' (Error err))
                | Inr bs \<Rightarrow>
                    (case decoder h bs of
                       Inl err \<Rightarrow> Inl (fmt_Errorf ''decoding response body: '' (Error err))
                     | Inr view \<Rightarrow> Inr (ByteSlice view))))"

section \<open>Example configurations\<close>

text \<open>
  A pool made by \<open>NewHTTPPool\<close> with all options blank, a registry with the one group
  \<open>g\<close> whose lookup fails on the empty key and otherwise returns the bytes of the key, a
  codec whose \<open>Encode\<close> fails, and a pool for the peers \<open>A\<close> and \<open>BB\<close> on a ring of two
  replicas hashed by length.
\<close>

definition example_options :: HTTPPoolOptions where
  "example_options = \<lparr>BasePath = '''', Replicas = 0, HashFn = None, Codec = None\<rparr>"

definition example_pool :: HTTPPool where
  "example_pool = NewHTTPPool ''http://a'' example_options"

definition example_group :: Group where
  "example_group =
     \<lparr>name = ''g'',
      Get = (\<lambda>k. if k = '''' then Inl (errors_New ''key required'')
                 else Inr (ByteView (bytes_of k)))\<rparr>"

definition example_groups :: "string \<Rightarrow> Group option" where
  "example_groups n = (if n = ''g'' then Some example_group else None)"

definition failing_codec :: Codec where
  "failing_codec = \<lparr>Encode = (\<lambda>v. Inl (errors_New ''no encoder'')), Decode = RawCodec_Decode\<rparr>"

definition failing_pool :: HTTPPool where
  "failing_pool = NewHTTPPool ''http://a'' (example_options\<lparr>Codec := Some failing_codec\<rparr>)"

definition length_hash :: Hash where
  "length_hash bs = of_nat (length bs)"

definition ring_pool :: HTTPPool where
  "ring_pool =
     NewHTTPPool ''A'' (example_options\<lparr>Replicas := 2, HashFn := Some length_hash\<rparr>)"

definition ring_pool_set :: HTTPPool where
  "ring_pool_set =
     ring_pool
       \<lparr>peers := Some \<lparr>hash = length_hash, replicas = 2,
                       ring = [(2, ''A''), (2, ''A''), (3, ''BB''), (3, ''BB'')]\<rparr>,
        httpGetters := [''A'' \<mapsto> \<lparr>baseURL = ''A/_yocache/'', decoder = Decode RawCodec\<rparr>,
                        ''BB'' \<mapsto> \<lparr>baseURL = ''BB/_yocache/'', decoder = Decode RawCodec\<rparr>]\<rparr>"

section \<open>Properties of the codecs\<close>

lemma RawCodec_roundtrip:
  "\<exists>bs. Encode RawCodec v = Inr bs \<and> Decode RawCodec bs = Inr v"
  by (simp add: RawCodec_def RawCodec_Encode_def RawCodec_Decode_def ByteSlice_def)

lemma get16_le16:
  assumes "n < 65536"
  shows "\<exists>lo hi. le16 n = [lo, hi] \<and> get16 lo hi = n"
proof -
  have "n div 256 < 256" using assms by simp
  then show ?thesis by (simp add: le16_def get16_def unat_of_nat)
qed

lemma inflate_stored_block:
  assumes "length d \<le> 65535"
  shows "inflate acc (stored_block False d @ rest) = inflate (acc @ d) rest"
proof -
  obtain l0 l1 where l: "le16 (length d) = [l0, l1]" "get16 l0 l1 = length d"
    using get16_le16[of "length d"] assms by auto
  obtain n0 n1 where n: "le16 (65535 - length d) = [n0, n1]" "get16 n0 n1 = 65535 - length d"
  proof -
    have "65535 - length d < 65536" by simp
    from get16_le16[OF this] show ?thesis using that by blast
  qed
  show ?thesis
    by (simp add: stored_block_def l n)
qed

lemma inflate_final_block:
  "inflate acc (stored_block True [] @ rest) = Inr (acc, rest)"
  by (simp add: stored_block_def le16_def get16_def)

lemma inflate_stored_blocks:
  "inflate acc (stored_blocks d @ rest) = inflate (acc @ d) rest"
proof (induction d arbitrary: acc rule: stored_blocks.induct)
  case (1 d)
  show ?case
  proof (cases "d = []")
    case True
    then show ?thesis by (simp add: stored_blocks.simps)
  next
    case False
    have "inflate acc (stored_blocks d @ rest)
          = inflate acc (stored_block False (take 65535 d) @ (stored_blocks (drop 65535 d) @ rest))"
      using False by (subst stored_blocks.simps) simp
    also have "\<dots> = inflate (acc @ take 65535 d) (stored_blocks (drop 65535 d) @ rest)"
      by (rule inflate_stored_block) simp
    also have "\<dots> = inflate ((acc @ take 65535 d) @ drop 65535 d) rest"
      using False by (rule "1.IH")
    finally show ?thesis by simp
  qed
qed

lemma gzip_readHeader_header: "gzip_readHeader (gzip_header @ bs) = Inr bs"
  by (simp add: gzip_readHeader_def gzip_header_def)

lemma GzipCodec_Encode_result:
  "GzipCodec_Encode_run view =
     (Inr (gzip_header @ stored_blocks (b view) @ stored_block False []),
      gzip_header @ stored_blocks (b view) @ stored_block False [] @ stored_block True []
        @ le32 (crc32_ChecksumIEEE (b view)) @ le32 (of_nat (length (b view))))"
  by (simp add: GzipCodec_Encode_run_def Let_def gzip_NewWriter_def gzip_Write_def
      gzip_Flush_def gzip_Close_def ByteSlice_def crc32_ChecksumIEEE_def)

lemma inflate_unterminated:
  "inflate [] (stored_blocks d @ stored_block False []) = Inl io_ErrUnexpectedEOF"
proof -
  have "inflate [] (stored_blocks d @ stored_block False [])
        = inflate ([] @ d) (stored_block False [] @ [])"
    using inflate_stored_blocks[of "[]" d "stored_block False []"] by simp
  also have "\<dots> = inflate (([] @ d) @ []) []"
    by (rule inflate_stored_block) simp
  finally show ?thesis by simp
qed

text \<open>
  Claim C1 (round trip of the codecs). The Raw codec round-trips
  (\<open>RawCodec_roundtrip\<close>). For the gzip codec the claim fails at every view: \<open>Encode\<close>
  succeeds and returns the header, the blocks and the sync marker of \<open>Flush\<close>, without
  the final block and the trailer that the deferred \<open>Close\<close> writes, and \<open>Decode\<close> of
  these bytes returns the error \<open>io.ErrUnexpectedEOF\<close>.
\<close>

theorem GzipCodec_roundtrip_fails:
  "\<exists>bs. Encode GzipCodec view = Inr bs \<and> Decode GzipCodec bs = Inl io_ErrUnexpectedEOF"
proof -
  let ?bs = "gzip_header @ stored_blocks (b view) @ stored_block False []"
  have e: "Encode GzipCodec view = Inr ?bs"
    by (simp add: GzipCodec_def GzipCodec_Encode_def GzipCodec_Encode_result)
  have m: "gzip_readMember (stored_blocks (b view) @ stored_block False []) = Inl io_ErrUnexpectedEOF"
    by (simp add: gzip_readMember_def inflate_unterminated)
  have "gzip_ReadFrom (stored_blocks (b view) @ stored_block False []) = Inl io_ErrUnexpectedEOF"
    by (subst gzip_ReadFrom.simps) (simp add: m)
  then have "GzipCodec_Decode ?bs = Inl io_ErrUnexpectedEOF"
    unfolding GzipCodec_Decode_def gzip_readHeader_header by simp
  then show ?thesis using e by (simp add: GzipCodec_def)
qed

text \<open>
  The same at the empty view, evaluated; there the bytes of the model are those of the
  library (no block body is written).
\<close>

lemma GzipCodec_empty_unexpected_EOF:
  "Encode GzipCodec (ByteView [])
     = Inr [31, 139, 8, 0, 0, 0, 0, 0, 0, 255, 0, 0, 0, 255, 255]
   \<and> Decode GzipCodec [31, 139, 8, 0, 0, 0, 0, 0, 0, 255, 0, 0, 0, 255, 255]
     = Inl io_ErrUnexpectedEOF"
  by (simp add: GzipCodec_def GzipCodec_Encode_def GzipCodec_Encode_result
      GzipCodec_Decode_def gzip_readHeader_def gzip_ReadFrom.simps gzip_readMember_def
      gzip_header_def stored_blocks.simps stored_block_def le16_def get16_def)

text \<open>
  The buffer as the deferred \<open>Close\<close> leaves it holds a complete stream, which \<open>Decode\<close>
  reads back: the reader of the model accepts what the writer of the model completes.
\<close>

lemma get32_le32: "get32 (ucast x) (ucast (drop_bit 8 x)) (ucast (drop_bit 16 x)) (ucast (drop_bit 24 x)) = x"
proof (rule bit_word_eqI)
  fix n :: nat
  assume "n < LENGTH(32)"
  then have n: "n < 32" by simp
  consider "n < 8" | "8 \<le> n" "n < 16" | "16 \<le> n" "n < 24" | "24 \<le> n"
    by linarith
  then show "bit (get32 (ucast x) (ucast (drop_bit 8 x)) (ucast (drop_bit 16 x))
                (ucast (drop_bit 24 x))) n = bit x n"
    using n by cases (auto simp: get32_def bit_simps)
qed

lemma gzip_readMember_complete:
  "gzip_readMember (stored_blocks d @ stored_block False [] @ stored_block True []
      @ le32 (crc32_ChecksumIEEE d) @ le32 (of_nat (length d))) = Inr (d, [])"
proof -
  let ?t = "le32 (crc32_ChecksumIEEE d) @ le32 (of_nat (length d))"
  have "inflate [] (stored_blocks d @ stored_block False [] @ stored_block True [] @ ?t)
        = inflate ([] @ d) (stored_block False [] @ stored_block True [] @ ?t)"
    by (rule inflate_stored_blocks)
  also have "\<dots> = inflate (([] @ d) @ []) (stored_block True [] @ ?t)"
    by (rule inflate_stored_block) simp
  also have "\<dots> = Inr (d, ?t)"
    by (simp add: inflate_final_block)
  finally show ?thesis
    by (simp add: gzip_readMember_def le32_def get32_le32)
qed

lemma GzipCodec_closed_stream_roundtrip:
  "GzipCodec_Decode (snd (GzipCodec_Encode_run view)) = Inr view"
proof -
  let ?m = "stored_blocks (b view) @ stored_block False [] @ stored_block True []
      @ le32 (crc32_ChecksumIEEE (b view)) @ le32 (of_nat (length (b view)))"
  have s: "snd (GzipCodec_Encode_run view) = gzip_header @ ?m"
    by (simp add: GzipCodec_Encode_result)
  have "gzip_ReadFrom ?m = Inr (b view)"
    by (subst gzip_ReadFrom.simps) (simp add: gzip_readMember_complete gzip_readHeader_def)
  then show ?thesis
    unfolding s GzipCodec_Decode_def gzip_readHeader_header by simp
qed

section \<open>Properties of the LRU and the concurrent cache\<close>



text \<open>
  The add applies \<open>lru.Add\<close> to the LRU the cache holds, and to a new LRU of the cache's
  budget only when it holds none.
\<close>

lemma cache_add_lru:
  "lru (cache_add c k v now) =
     Some (lru_Add (case lru c of None \<Rightarrow> lru_New (cacheBytes c) | Some l0 \<Rightarrow> l0) k v
             (if ttl c = 0 then 0 else Time_Add now (ttl c)))"
  by (simp add: cache_add_def Let_def)

lemma RemoveOldest_while_fits:
  "mx \<le> 0 \<or> lru_Bytes es \<le> mx \<Longrightarrow> RemoveOldest_while mx es = es"
  by (subst RemoveOldest_while.simps) auto






text \<open>
  Claim C8. On a cache whose LRU has not been constructed, a lookup of any key returns
  the zero ByteView with ok = false and leaves the cache as it is, so any run of lookups
  before the first add leaves the LRU unconstructed, and a lookup never constructs it.
  An add constructs the LRU, with the budget of the cache, only when the cache holds
  none; an add to a cache that holds an LRU adds to that LRU, so that, when nothing has
  to be evicted, the entries of the other keys stay stored behind the new entry.
\<close>

theorem cache_get_before_add:
  "(lru c = None \<longrightarrow>
      cache_get c k now = ((ByteView_zero, False), c)
      \<and> cache_gets c qs = (map (\<lambda>_. (ByteView_zero, False)) qs, c))
   \<and> (lru (snd (cache_get c k now)) = None \<longleftrightarrow> lru c = None)
   \<and> lru (cache_add c k v now) \<noteq> None
   \<and> (lru c = None \<longrightarrow>
        lru (cache_add c k v now)
          = Some (lru_Add (lru_New (cacheBytes c)) k v
                    (if ttl c = 0 then 0 else Time_Add now (ttl c))))
   \<and> (lru c = Some l0 \<longrightarrow>
        lru (cache_add c k v now)
          = Some (lru_Add l0 k v (if ttl c = 0 then 0 else Time_Add now (ttl c)))
      \<and> (maxBytes l0 \<le> 0
           \<or> lru_Bytes (\<lparr>key = k, val = v,
                           expire = (if ttl c = 0 then 0 else Time_Add now (ttl c))\<rparr>
                          # filter (\<lambda>x. key x \<noteq> k) (ll l0)) \<le> maxBytes l0 \<longrightarrow>
          lru (cache_add c k v now)
            = Some \<lparr>maxBytes = maxBytes l0,
                    ll = \<lparr>key = k, val = v,
                           expire = (if ttl c = 0 then 0 else Time_Add now (ttl c))\<rparr>
                         # filter (\<lambda>x. key x \<noteq> k) (ll l0)\<rparr>))"
proof -
  have g: "cache_gets c qs = (map (\<lambda>_. (ByteView_zero, False)) qs, c)" if "lru c = None"
    using that by (induction qs) (auto simp: cache_get_def)
  have c1: "lru c = None \<longrightarrow>
      cache_get c k now = ((ByteView_zero, False), c)
      \<and> cache_gets c qs = (map (\<lambda>_. (ByteView_zero, False)) qs, c)"
    using g by (simp add: cache_get_def)
  have s: "lru (snd (cache_get c k now)) = None \<longleftrightarrow> lru c = None"
    by (simp add: cache_get_def split: option.splits prod.splits)
  have a: "lru (cache_add c k v now) \<noteq> None"
    by (simp add: cache_add_def Let_def)
  have n: "lru c = None \<longrightarrow> lru (cache_add c k v now)
      = Some (lru_Add (lru_New (cacheBytes c)) k v (if ttl c = 0 then 0 else Time_Add now (ttl c)))"
    by (simp add: cache_add_lru)
  have y: "lru (cache_add c k v now)
      = Some (lru_Add l0 k v (if ttl c = 0 then 0 else Time_Add now (ttl c)))"
    if "lru c = Some l0"
    using that by (simp add: cache_add_lru)
  have keep: "lru (cache_add c k v now)
      = Some \<lparr>maxBytes = maxBytes l0,
              ll = \<lparr>key = k, val = v, expire = (if ttl c = 0 then 0 else Time_Add now (ttl c))\<rparr>
                     # filter (\<lambda>x. key x \<noteq> k) (ll l0)\<rparr>"
    if l: "lru c = Some l0"
      and f: "maxBytes l0 \<le> 0
        \<or> lru_Bytes (\<lparr>key = k, val = v, expire = (if ttl c = 0 then 0 else Time_Add now (ttl c))\<rparr>
                       # filter (\<lambda>x. key x \<noteq> k) (ll l0)) \<le> maxBytes l0"
  proof -
    have "lru_Add l0 k v (if ttl c = 0 then 0 else Time_Add now (ttl c))
        = \<lparr>maxBytes = maxBytes l0,
           ll = \<lparr>key = k, val = v, expire = (if ttl c = 0 then 0 else Time_Add now (ttl c))\<rparr>
                  # filter (\<lambda>x. key x \<noteq> k) (ll l0)\<rparr>"
      unfolding lru_Add_def Let_def RemoveOldest_while_fits[OF f] by (cases l0) simp
    with y[OF l] show ?thesis by simp
  qed
  have c5: "lru c = Some l0 \<longrightarrow>
        lru (cache_add c k v now)
          = Some (lru_Add l0 k v (if ttl c = 0 then 0 else Time_Add now (ttl c)))
      \<and> (maxBytes l0 \<le> 0
           \<or> lru_Bytes (\<lparr>key = k, val = v,
                           expire = (if ttl c = 0 then 0 else Time_Add now (ttl c))\<rparr>
                          # filter (\<lambda>x. key x \<noteq> k) (ll l0)) \<le> maxBytes l0 \<longrightarrow>
          lru (cache_add c k v now)
            = Some \<lparr>maxBytes = maxBytes l0,
                    ll = \<lparr>key = k, val = v,
                           expire = (if ttl c = 0 then 0 else Time_Add now (ttl c))\<rparr>
                         # filter (\<lambda>x. key x \<noteq> k) (ll l0)\<rparr>)"
  proof (intro impI conjI)
    assume l: "lru c = Some l0"
    show "lru (cache_add c k v now)
          = Some (lru_Add l0 k v (if ttl c = 0 then 0 else Time_Add now (ttl c)))"
      by (rule y[OF l])
    assume "maxBytes l0 \<le> 0
           \<or> lru_Bytes (\<lparr>key = k, val = v,
                           expire = (if ttl c = 0 then 0 else Time_Add now (ttl c))\<rparr>
                          # filter (\<lambda>x. key x \<noteq> k) (ll l0)) \<le> maxBytes l0"
    from keep[OF l this] show "lru (cache_add c k v now)
            = Some \<lparr>maxBytes = maxBytes l0,
                    ll = \<lparr>key = k, val = v,
                           expire = (if ttl c = 0 then 0 else Time_Add now (ttl c))\<rparr>
                         # filter (\<lambda>x. key x \<noteq> k) (ll l0)\<rparr>" .
  qed
  from c1 s a n c5 show ?thesis by (intro conjI)
qed

theorem cache_get_before_add_witness:
  "lru \<lparr>lru = None, cacheBytes = 1024, ttl = 0\<rparr> = None
   \<and> cache_get \<lparr>lru = None, cacheBytes = 1024, ttl = 0\<rparr> ''k1'' 5
       = ((ByteView_zero, False), \<lparr>lru = None, cacheBytes = 1024, ttl = 0\<rparr>)
   \<and> cache_gets \<lparr>lru = None, cacheBytes = 1024, ttl = 0\<rparr> [(''k1'', 5), (''k2'', 6)]
       = ([(ByteView_zero, False), (ByteView_zero, False)],
          \<lparr>lru = None, cacheBytes = 1024, ttl = 0\<rparr>)
   \<and> lru (cache_add
            \<lparr>lru = Some \<lparr>maxBytes = 1024,
                          ll = [\<lparr>key = ''k1'', val = ByteView [118, 49], expire = 0\<rparr>]\<rparr>,
             cacheBytes = 1024, ttl = 0\<rparr>
            ''k2'' (ByteView [118, 50]) 7)
     = Some \<lparr>maxBytes = 1024,
             ll = [\<lparr>key = ''k2'', val = ByteView [118, 50], expire = 0\<rparr>,
                   \<lparr>key = ''k1'', val = ByteView [118, 49], expire = 0\<rparr>]\<rparr>"
proof -
  let ?c = "\<lparr>lru = None, cacheBytes = 1024, ttl = 0\<rparr>"
  let ?e1 = "\<lparr>key = ''k1'', val = ByteView [118, 49], expire = 0\<rparr>"
  let ?e2 = "\<lparr>key = ''k2'', val = ByteView [118, 50], expire = 0\<rparr>"
  let ?l0 = "\<lparr>maxBytes = 1024, ll = [?e1]\<rparr>"
  let ?c1 = "\<lparr>lru = Some ?l0, cacheBytes = 1024, ttl = 0\<rparr>"
  have h: "lru ?c = None" by simp
  from cache_get_before_add[of ?c "''k1''" 5 "[(''k1'', 5), (''k2'', 6)]"] h
  have "cache_get ?c ''k1'' 5 = ((ByteView_zero, False), ?c)
      \<and> cache_gets ?c [(''k1'', 5), (''k2'', 6)]
          = (map (\<lambda>_. (ByteView_zero, False)) [(''k1'', 5::int), (''k2'', 6)], ?c)"
    by blast
  then have a: "cache_get ?c ''k1'' 5 = ((ByteView_zero, False), ?c)
      \<and> cache_gets ?c [(''k1'', 5), (''k2'', 6)]
          = ([(ByteView_zero, False), (ByteView_zero, False)], ?c)"
    by (simp del: cache_gets.simps)
  have h1: "lru ?c1 = Some ?l0" by simp
  have fit: "maxBytes ?l0 \<le> 0
      \<or> lru_Bytes (\<lparr>key = ''k2'', val = ByteView [118, 50],
                      expire = (if ttl ?c1 = 0 then 0 else Time_Add 7 (ttl ?c1))\<rparr>
                     # filter (\<lambda>x. key x \<noteq> ''k2'') (ll ?l0)) \<le> maxBytes ?l0"
    by (simp add: lru_Bytes_def entry_size_def Len_def)
  from cache_get_before_add[of ?c1 "''k2''" 7 "[]" "ByteView [118, 50]" ?l0] h1
  have "maxBytes ?l0 \<le> 0
      \<or> lru_Bytes (\<lparr>key = ''k2'', val = ByteView [118, 50],
                      expire = (if ttl ?c1 = 0 then 0 else Time_Add 7 (ttl ?c1))\<rparr>
                     # filter (\<lambda>x. key x \<noteq> ''k2'') (ll ?l0)) \<le> maxBytes ?l0
      \<longrightarrow> lru (cache_add ?c1 ''k2'' (ByteView [118, 50]) 7)
            = Some \<lparr>maxBytes = maxBytes ?l0,
                    ll = \<lparr>key = ''k2'', val = ByteView [118, 50],
                           expire = (if ttl ?c1 = 0 then 0 else Time_Add 7 (ttl ?c1))\<rparr>
                         # filter (\<lambda>x. key x \<noteq> ''k2'') (ll ?l0)\<rparr>"
    by blast
  with fit have "lru (cache_add ?c1 ''k2'' (ByteView [118, 50]) 7)
            = Some \<lparr>maxBytes = maxBytes ?l0,
                    ll = \<lparr>key = ''k2'', val = ByteView [118, 50],
                           expire = (if ttl ?c1 = 0 then 0 else Time_Add 7 (ttl ?c1))\<rparr>
                         # filter (\<lambda>x. key x \<noteq> ''k2'') (ll ?l0)\<rparr>"
    by (rule rev_mp)
  then have b: "lru (cache_add ?c1 ''k2'' (ByteView [118, 50]) 7)
      = Some \<lparr>maxBytes = 1024, ll = [?e2, ?e1]\<rparr>"
    by simp
  from h a b show ?thesis by blast
qed

section \<open>Properties of the HTTP pool\<close>

subsection \<open>Splitting the path\<close>

lemma Index_slash_none: "CHR ''/'' \<notin> set s \<Longrightarrow> Index s ''/'' = None"
  by (induction s) (auto simp: HasPrefix_def)

lemma Index_slash_first:
  "CHR ''/'' \<notin> set g \<Longrightarrow> Index (g @ CHR ''/'' # k) ''/'' = Some (length g)"
  by (induction g) (auto simp: HasPrefix_def)

lemma SplitN_no_slash: "CHR ''/'' \<notin> set s \<Longrightarrow> SplitN s ''/'' 2 = [s]"
  by (simp add: SplitN_def Index_slash_none numeral_2_eq_2)

lemma SplitN_first_slash:
  "CHR ''/'' \<notin> set g \<Longrightarrow> SplitN (g @ ''/'' @ k) ''/'' 2 = [g, k]"
  by (simp add: SplitN_def Index_slash_first numeral_2_eq_2)

text \<open>
  A path without a slash is one part; any other path is, in one way only, a group
  without a slash, the slash, and the key, which may hold more slashes.
\<close>

lemma path_cases:
  "CHR ''/'' \<notin> set s \<or> (\<exists>g k. s = g @ ''/'' @ k \<and> CHR ''/'' \<notin> set g)"
proof (cases "CHR ''/'' \<in> set s")
  case True
  then obtain g k where "s = g @ CHR ''/'' # k" "CHR ''/'' \<notin> set g"
    by (auto dest: split_list_first)
  then show ?thesis by auto
next
  case False
  then show ?thesis by simp
qed

lemma SplitN_length_2: "length (SplitN s ''/'' 2) = 2 \<longleftrightarrow> CHR ''/'' \<in> set s"
proof (cases "CHR ''/'' \<in> set s")
  case True
  then obtain g k where "s = g @ ''/'' @ k" "CHR ''/'' \<notin> set g"
    using path_cases[of s] by auto
  then have "SplitN s ''/'' 2 = [g, k]" using SplitN_first_slash[of g k] by simp
  with True show ?thesis by simp
next
  case False
  then show ?thesis by (simp add: SplitN_no_slash)
qed

subsection \<open>The handler\<close>

lemma ServeHTTP_no_slash:
  assumes "HasPrefix (URL_Path r) (BasePath (opts p))"
    and "CHR ''/'' \<notin> set (drop (length (BasePath (opts p))) (URL_Path r))"
  shows "ServeHTTP p GetGroup r = Inr (http_Error ''bad request'' StatusBadRequest)"
  using assms by (simp add: ServeHTTP_def SplitN_no_slash)

lemma ServeHTTP_group_key:
  assumes "HasPrefix (URL_Path r) (BasePath (opts p))"
    and "drop (length (BasePath (opts p))) (URL_Path r) = g @ ''/'' @ k"
    and "CHR ''/'' \<notin> set g"
  shows "ServeHTTP p GetGroup r =
     (case GetGroup g of
        None \<Rightarrow> Inr (http_Error (''no such group: '' @ g) StatusNotFound)
      | Some grp \<Rightarrow>
          (case Get grp k of
             Inl err \<Rightarrow> Inr (http_Error (Error err) StatusInternalServerError)
           | Inr view \<Rightarrow>
               (case Codec (opts p) of
                  None \<Rightarrow> Inl nil_dereference
                | Some codec \<Rightarrow>
                    (case Encode codec view of
                       Inl err \<Rightarrow> Inr (http_Error (Error err) StatusInternalServerError)
                     | Inr bs \<Rightarrow>
                         Inr \<lparr>status = StatusOK,
                              header = [(''Content-Type'', ''application/octet-stream'')],
                              body = bs\<rparr>))))"
proof -
  have "SplitN (drop (length (BasePath (opts p))) (URL_Path r)) ''/'' 2 = [g, k]"
    using assms(2,3) SplitN_first_slash[of g k] by simp
  then show ?thesis using assms(1) by (simp add: ServeHTTP_def)
qed

text \<open>
  Claim C3, as stated: a path after the base path that does not split into exactly two
  segments gets status 400. The segments of a path, in the words of the spec, are its
  parts between slashes (\<open>segments\<close>). The claim fails at the path \<open>/_yocache/g/a/b\<close>,
  whose rest has three segments: the handler splits at the first slash only and serves
  the key \<open>a/b\<close> of the group \<open>g\<close> with status 200.
\<close>

theorem ServeHTTP_three_segments:
  "segments ''g/a/b'' = [''g'', ''a'', ''b'']
   \<and> length (segments ''g/a/b'') \<noteq> 2
   \<and> HasPrefix ''/_yocache/g/a/b'' (BasePath (opts example_pool))
   \<and> drop (length (BasePath (opts example_pool))) ''/_yocache/g/a/b'' = ''g/a/b''
   \<and> ServeHTTP example_pool example_groups \<lparr>Method = ''GET'', URL_Path = ''/_yocache/g/a/b''\<rparr>
       = Inr \<lparr>status = 200, header = [(''Content-Type'', ''application/octet-stream'')],
              body = [97, 47, 98]\<rparr>"
proof -
  have base: "BasePath (opts example_pool) = ''/_yocache/''"
    by (simp add: example_pool_def NewHTTPPool_def example_options_def defaultBasePath_def Let_def)
  have codec: "Codec (opts example_pool) = Some RawCodec"
    by (simp add: example_pool_def NewHTTPPool_def example_options_def Let_def)
  let ?r = "\<lparr>Method = ''GET'', URL_Path = ''/_yocache/g/a/b''\<rparr>"
  have s: "segments ''g/a/b'' = [''g'', ''a'', ''b'']"
    by (simp add: segments_def SplitN_def eval_nat_numeral HasPrefix_def)
  have ns: "CHR ''/'' \<notin> set ''g''" by simp
  have p: "HasPrefix (URL_Path ?r) (BasePath (opts example_pool))"
    by (simp add: base HasPrefix_def)
  have d: "drop (length (BasePath (opts example_pool))) (URL_Path ?r) = ''g'' @ ''/'' @ ''a/b''"
    by (simp add: base)
  have "ServeHTTP example_pool example_groups ?r
      = Inr \<lparr>status = 200, header = [(''Content-Type'', ''application/octet-stream'')],
             body = [97, 47, 98]\<rparr>"
    unfolding ServeHTTP_group_key[OF p d ns, of example_groups]
    by (simp add: example_groups_def example_group_def codec RawCodec_def RawCodec_Encode_def
        ByteSlice_def bytes_of_def StatusOK_def)
  with s p d show ?thesis by simp
qed

text \<open>
  Claim C3, amended. For a request whose path starts with the base path, let the rest be
  the path after it. The handler splits the rest at its first slash (\<open>SplitN\<close> with limit
  2, which gives two parts exactly when the rest holds a slash). A rest without a slash
  gets status 400. Any other rest is the group name, which holds no slash, the first
  slash, and the key, which may hold further slashes: an unregistered group gets 404; an
  error of the group's lookup or of the codec's \<open>Encode\<close> gets 500; otherwise the response
  is 200 with Content-Type application/octet-stream and the encoded value as body.
\<close>

theorem ServeHTTP_responses:
  assumes "HasPrefix (URL_Path r) (BasePath (opts p))"
    and "Codec (opts p) = Some codec"
    and "rest = drop (length (BasePath (opts p))) (URL_Path r)"
  shows "(length (SplitN rest ''/'' 2) \<noteq> 2 \<longleftrightarrow> CHR ''/'' \<notin> set rest)
     \<and> (CHR ''/'' \<notin> set rest \<longrightarrow>
            (\<exists>resp. ServeHTTP p GetGroup r = Inr resp \<and> status resp = 400))
     \<and> (CHR ''/'' \<in> set rest \<longrightarrow>
            (\<exists>g k. rest = g @ ''/'' @ k \<and> CHR ''/'' \<notin> set g \<and> SplitN rest ''/'' 2 = [g, k]))
     \<and> (\<forall>g k. rest = g @ ''/'' @ k \<and> CHR ''/'' \<notin> set g \<longrightarrow>
           (GetGroup g = None \<longrightarrow>
              (\<exists>resp. ServeHTTP p GetGroup r = Inr resp \<and> status resp = 404))
         \<and> (\<forall>grp. GetGroup g = Some grp \<longrightarrow>
              (\<forall>err. Get grp k = Inl err \<longrightarrow>
                 (\<exists>resp. ServeHTTP p GetGroup r = Inr resp \<and> status resp = 500))
            \<and> (\<forall>view. Get grp k = Inr view \<longrightarrow>
                 (\<forall>err. Encode codec view = Inl err \<longrightarrow>
                    (\<exists>resp. ServeHTTP p GetGroup r = Inr resp \<and> status resp = 500))
               \<and> (\<forall>bs. Encode codec view = Inr bs \<longrightarrow>
                    ServeHTTP p GetGroup r =
                      Inr \<lparr>status = 200,
                           header = [(''Content-Type'', ''application/octet-stream'')],
                           body = bs\<rparr>))))"
proof (intro conjI allI impI)
  show "length (SplitN rest ''/'' 2) \<noteq> 2 \<longleftrightarrow> CHR ''/'' \<notin> set rest"
    by (simp add: SplitN_length_2)
next
  assume "CHR ''/'' \<notin> set rest"
  then show "\<exists>resp. ServeHTTP p GetGroup r = Inr resp \<and> status resp = 400"
    using ServeHTTP_no_slash[OF assms(1), of GetGroup] assms(3)
    by (simp add: http_Error_def StatusBadRequest_def)
next
  assume "CHR ''/'' \<in> set rest"
  then obtain g k where gk: "rest = g @ ''/'' @ k" "CHR ''/'' \<notin> set g"
    using path_cases[of rest] by auto
  then have "SplitN rest ''/'' 2 = [g, k]" using SplitN_first_slash[of g k] by simp
  with gk show "\<exists>g k. rest = g @ ''/'' @ k \<and> CHR ''/'' \<notin> set g \<and> SplitN rest ''/'' 2 = [g, k]"
    by blast
next
  fix g k
  assume gk: "rest = g @ ''/'' @ k \<and> CHR ''/'' \<notin> set g"
  then have eq: "drop (length (BasePath (opts p))) (URL_Path r) = g @ ''/'' @ k"
    and ns: "CHR ''/'' \<notin> set g"
    using assms(3) by simp_all
  note S = ServeHTTP_group_key[OF assms(1) eq ns, of GetGroup]
  {
    assume "GetGroup g = None"
    then show "\<exists>resp. ServeHTTP p GetGroup r = Inr resp \<and> status resp = 404"
      by (simp add: S http_Error_def StatusNotFound_def)
  }
  fix grp
  assume grp: "GetGroup g = Some grp"
  {
    fix err
    assume "Get grp k = Inl err"
    then show "\<exists>resp. ServeHTTP p GetGroup r = Inr resp \<and> status resp = 500"
      by (simp add: S grp http_Error_def StatusInternalServerError_def)
  }
  fix view
  assume view: "Get grp k = Inr view"
  {
    fix err
    assume "Encode codec view = Inl err"
    then show "\<exists>resp. ServeHTTP p GetGroup r = Inr resp \<and> status resp = 500"
      by (simp add: S grp view assms(2) http_Error_def StatusInternalServerError_def)
  }
  fix bs
  assume "Encode codec view = Inr bs"
  then show "ServeHTTP p GetGroup r =
      Inr \<lparr>status = 200, header = [(''Content-Type'', ''application/octet-stream'')], body = bs\<rparr>"
    by (simp add: S grp view assms(2) StatusOK_def)
qed

theorem ServeHTTP_responses_witness:
  "HasPrefix ''/_yocache/g/k'' (BasePath (opts example_pool))
   \<and> Codec (opts example_pool) = Some RawCodec
   \<and> (\<exists>resp. ServeHTTP example_pool example_groups \<lparr>Method = ''GET'', URL_Path = ''/_yocache/g''\<rparr>
                = Inr resp \<and> status resp = 400)
   \<and> (\<exists>resp. ServeHTTP example_pool example_groups \<lparr>Method = ''GET'', URL_Path = ''/_yocache/h/k''\<rparr>
                = Inr resp \<and> status resp = 404)
   \<and> (\<exists>resp. ServeHTTP example_pool example_groups \<lparr>Method = ''GET'', URL_Path = ''/_yocache/g/''\<rparr>
                = Inr resp \<and> status resp = 500)
   \<and> (\<exists>resp. ServeHTTP failing_pool example_groups \<lparr>Method = ''GET'', URL_Path = ''/_yocache/g/k''\<rparr>
                = Inr resp \<and> status resp = 500)
   \<and> ServeHTTP example_pool example_groups \<lparr>Method = ''GET'', URL_Path = ''/_yocache/g/k''\<rparr>
       = Inr \<lparr>status = 200, header = [(''Content-Type'', ''application/octet-stream'')],
              body = [107]\<rparr>"
proof -
  have base: "BasePath (opts example_pool) = ''/_yocache/''"
             "BasePath (opts failing_pool) = ''/_yocache/''"
    by (simp_all add: example_pool_def failing_pool_def NewHTTPPool_def example_options_def
        defaultBasePath_def Let_def)
  have codec: "Codec (opts example_pool) = Some RawCodec"
              "Codec (opts failing_pool) = Some failing_codec"
    by (simp_all add: example_pool_def failing_pool_def NewHTTPPool_def example_options_def
        Let_def)
  have pre: "HasPrefix ''/_yocache/g/k'' (BasePath (opts example_pool))"
    by (simp add: base HasPrefix_def)
  let ?r1 = "\<lparr>Method = ''GET'', URL_Path = ''/_yocache/g''\<rparr>"
  let ?r2 = "\<lparr>Method = ''GET'', URL_Path = ''/_yocache/h/k''\<rparr>"
  let ?r3 = "\<lparr>Method = ''GET'', URL_Path = ''/_yocache/g/''\<rparr>"
  let ?r4 = "\<lparr>Method = ''GET'', URL_Path = ''/_yocache/g/k''\<rparr>"
  have p1: "HasPrefix (URL_Path ?r1) (BasePath (opts example_pool))"
    and p2: "HasPrefix (URL_Path ?r2) (BasePath (opts example_pool))"
    and p3: "HasPrefix (URL_Path ?r3) (BasePath (opts example_pool))"
    and p4: "HasPrefix (URL_Path ?r4) (BasePath (opts example_pool))"
    and p5: "HasPrefix (URL_Path ?r4) (BasePath (opts failing_pool))"
    by (simp_all add: base HasPrefix_def)
  have c1: "\<exists>resp. ServeHTTP example_pool example_groups ?r1 = Inr resp \<and> status resp = 400"
    using ServeHTTP_responses[OF p1 codec(1) refl, of example_groups]
    by (simp add: base)
  have c2: "\<exists>resp. ServeHTTP example_pool example_groups ?r2 = Inr resp \<and> status resp = 404"
  proof -
    have "drop (length (BasePath (opts example_pool))) (URL_Path ?r2) = ''h'' @ ''/'' @ ''k''
        \<and> CHR ''/'' \<notin> set ''h''"
      by (simp add: base)
    moreover have "example_groups ''h'' = None" by (simp add: example_groups_def)
    ultimately show ?thesis
      using ServeHTTP_responses[OF p2 codec(1) refl, of example_groups] by blast
  qed
  have c3: "\<exists>resp. ServeHTTP example_pool example_groups ?r3 = Inr resp \<and> status resp = 500"
  proof -
    have "drop (length (BasePath (opts example_pool))) (URL_Path ?r3) = ''g'' @ ''/'' @ ''''
        \<and> CHR ''/'' \<notin> set ''g''"
      by (simp add: base)
    moreover have "example_groups ''g'' = Some example_group" by (simp add: example_groups_def)
    moreover have "Get example_group '''' = Inl (errors_New ''key required'')"
      by (simp add: example_group_def)
    ultimately show ?thesis
      using ServeHTTP_responses[OF p3 codec(1) refl, of example_groups] by blast
  qed
  have c4: "\<exists>resp. ServeHTTP failing_pool example_groups ?r4 = Inr resp \<and> status resp = 500"
  proof -
    have "drop (length (BasePath (opts failing_pool))) (URL_Path ?r4) = ''g'' @ ''/'' @ ''k''
        \<and> CHR ''/'' \<notin> set ''g''"
      by (simp add: base)
    moreover have "example_groups ''g'' = Some example_group" by (simp add: example_groups_def)
    moreover have "Get example_group ''k'' = Inr (ByteView [107])"
      by (simp add: example_group_def bytes_of_def)
    moreover have "Encode failing_codec (ByteView [107]) = Inl (errors_New ''no encoder'')"
      by (simp add: failing_codec_def)
    ultimately show ?thesis
      using ServeHTTP_responses[OF p5 codec(2) refl, of example_groups] by blast
  qed
  have c5: "ServeHTTP example_pool example_groups ?r4
      = Inr \<lparr>status = 200, header = [(''Content-Type'', ''application/octet-stream'')],
             body = [107]\<rparr>"
  proof -
    have "drop (length (BasePath (opts example_pool))) (URL_Path ?r4) = ''g'' @ ''/'' @ ''k''
        \<and> CHR ''/'' \<notin> set ''g''"
      by (simp add: base)
    moreover have "example_groups ''g'' = Some example_group" by (simp add: example_groups_def)
    moreover have "Get example_group ''k'' = Inr (ByteView [107])"
      by (simp add: example_group_def bytes_of_def)
    moreover have "Encode RawCodec (ByteView [107]) = Inr [107]"
      by (simp add: RawCodec_def RawCodec_Encode_def ByteSlice_def)
    ultimately show ?thesis
      using ServeHTTP_responses[OF p4 codec(1) refl, of example_groups] by blast
  qed
  from pre codec(1) c1 c2 c3 c4 c5 show ?thesis by blast
qed

text \<open>
  Claim C9. A request whose path does not start with the base path makes the handler
  panic with the message naming the path, and no response is written; a request whose
  path starts with the base path gets a response (the codec of a pool made by
  \<open>NewHTTPPool\<close> is set). So the handler panics on exactly the paths without the prefix.
\<close>

theorem ServeHTTP_panics:
  "(\<not> HasPrefix (URL_Path r) (BasePath (opts p)) \<longrightarrow>
      ServeHTTP p GetGroup r
        = Inl (panic_message (''HTTPPool serving unexpected path: '' @ URL_Path r)))
   \<and> (HasPrefix (URL_Path r) (BasePath (opts p)) \<and> Codec (opts p) \<noteq> None \<longrightarrow>
        (\<exists>resp. ServeHTTP p GetGroup r = Inr resp))"
proof (intro conjI impI)
  assume "\<not> HasPrefix (URL_Path r) (BasePath (opts p))"
  then show "ServeHTTP p GetGroup r
      = Inl (panic_message (''HTTPPool serving unexpected path: '' @ URL_Path r))"
    by (simp add: ServeHTTP_def)
next
  assume a: "HasPrefix (URL_Path r) (BasePath (opts p)) \<and> Codec (opts p) \<noteq> None"
  let ?rest = "drop (length (BasePath (opts p))) (URL_Path r)"
  from path_cases[of ?rest] show "\<exists>resp. ServeHTTP p GetGroup r = Inr resp"
  proof
    assume "CHR ''/'' \<notin> set ?rest"
    with a show ?thesis by (simp add: ServeHTTP_no_slash)
  next
    assume "\<exists>g k. ?rest = g @ ''/'' @ k \<and> CHR ''/'' \<notin> set g"
    then obtain g k where gk: "?rest = g @ ''/'' @ k" "CHR ''/'' \<notin> set g" by blast
    from a have pre: "HasPrefix (URL_Path r) (BasePath (opts p))" by simp
    from a show ?thesis
      unfolding ServeHTTP_group_key[OF pre gk, of GetGroup]
      by (auto split: option.splits sum.splits)
  qed
qed

theorem ServeHTTP_panics_witness:
  "\<not> HasPrefix ''/other/g/k'' (BasePath (opts example_pool))
   \<and> ServeHTTP example_pool example_groups \<lparr>Method = ''GET'', URL_Path = ''/other/g/k''\<rparr>
       = Inl (panic_message ''HTTPPool serving unexpected path: /other/g/k'')
   \<and> HasPrefix ''/_yocache/g'' (BasePath (opts example_pool))
   \<and> Codec (opts example_pool) \<noteq> None
   \<and> (\<exists>resp. ServeHTTP example_pool example_groups \<lparr>Method = ''GET'', URL_Path = ''/_yocache/g''\<rparr>
               = Inr resp)"
proof -
  have base: "BasePath (opts example_pool) = ''/_yocache/''"
    by (simp add: example_pool_def NewHTTPPool_def example_options_def defaultBasePath_def Let_def)
  have codec: "Codec (opts example_pool) \<noteq> None"
    by (simp add: example_pool_def NewHTTPPool_def example_options_def Let_def)
  have n: "\<not> HasPrefix ''/other/g/k'' (BasePath (opts example_pool))"
    by (simp add: base HasPrefix_def)
  have y: "HasPrefix ''/_yocache/g'' (BasePath (opts example_pool))"
    by (simp add: base HasPrefix_def)
  from ServeHTTP_panics[of "\<lparr>Method = ''GET'', URL_Path = ''/other/g/k''\<rparr>" example_pool
      example_groups] n
  have a: "ServeHTTP example_pool example_groups \<lparr>Method = ''GET'', URL_Path = ''/other/g/k''\<rparr>
       = Inl (panic_message ''HTTPPool serving unexpected path: /other/g/k'')"
    by simp
  from ServeHTTP_panics[of "\<lparr>Method = ''GET'', URL_Path = ''/_yocache/g''\<rparr>" example_pool
      example_groups] y codec
  have b: "\<exists>resp. ServeHTTP example_pool example_groups
      \<lparr>Method = ''GET'', URL_Path = ''/_yocache/g''\<rparr> = Inr resp"
    by simp
  from n a y codec b show ?thesis by blast
qed

subsection \<open>The peer client\<close>

text \<open>
  Claim C4. When the transport returns a response whose status code is not 200, the
  client returns an error whose message is \<open>server returned: \<close> followed by the status of
  the response; when the status code is 200 it does not return that error: the result is
  then decided by reading and decoding the body, and is the bytes of the decoded view
  when both succeed.
\<close>

theorem httpGetter_Get_status:
  assumes "http_Get (httpGetter_URL h grp k) = Inr res"
  shows "(StatusCode res \<noteq> 200 \<longrightarrow>
            (\<exists>err. httpGetter_Get h http_Get grp k = Inl err
                   \<and> Error err = ''server returned: '' @ Status res))
     \<and> (StatusCode res = 200 \<longrightarrow>
            (\<forall>err. httpGetter_Get h http_Get grp k = Inl err \<longrightarrow>
                   Error err \<noteq> ''server returned: '' @ Status res)
          \<and> (\<forall>bs view. Body res = Inr bs \<and> decoder h bs = Inr view \<longrightarrow>
                   httpGetter_Get h http_Get grp k = Inr (ByteSlice view)))"
  using assms
  by (auto simp: httpGetter_Get_def Let_def StatusOK_def fmt_Errorf_def split: sum.splits)

theorem httpGetter_Get_status_witness:
  "(\<exists>err. httpGetter_Get \<lparr>baseURL = ''http://b/_yocache/'', decoder = RawCodec_Decode\<rparr>
            (\<lambda>u. Inr \<lparr>StatusCode = 404, Status = ''404 Not Found'', Body = Inr []\<rparr>) ''g'' ''k''
          = Inl err
        \<and> Error err = ''server returned: 404 Not Found'')
   \<and> httpGetter_Get \<lparr>baseURL = ''http://b/_yocache/'', decoder = RawCodec_Decode\<rparr>
      (\<lambda>u. Inr \<lparr>StatusCode = 200, Status = ''200 OK'', Body = Inr [118]\<rparr>) ''g'' ''k''
     = Inr [118]"
proof -
  let ?h = "\<lparr>baseURL = ''http://b/_yocache/'', decoder = RawCodec_Decode\<rparr>"
  let ?bad = "\<lparr>StatusCode = 404, Status = ''404 Not Found'', Body = Inr []\<rparr>"
  let ?ok = "\<lparr>StatusCode = 200, Status = ''200 OK'', Body = Inr [118]\<rparr>"
  have "\<exists>err. httpGetter_Get ?h (\<lambda>u. Inr ?bad) ''g'' ''k'' = Inl err
          \<and> Error err = ''server returned: 404 Not Found''"
    using httpGetter_Get_status[where http_Get = "\<lambda>u. Inr ?bad" and h = ?h and grp = "''g''"
        and k = "''k''" and res = ?bad]
    by simp
  moreover have "httpGetter_Get ?h (\<lambda>u. Inr ?ok) ''g'' ''k'' = Inr [118]"
    using httpGetter_Get_status[where http_Get = "\<lambda>u. Inr ?ok" and h = ?h and grp = "''g''"
        and k = "''k''" and res = ?ok]
    by (simp add: RawCodec_Decode_def ByteSlice_def)
  ultimately show ?thesis by blast
qed

text \<open>
  The escaping of the client, byte by byte: \<open>url.QueryEscape\<close> is percent-encoding
  except at the space, which it writes as a plus sign.
\<close>

lemma QueryEscape_char:
  "QueryEscape s = concat (map (\<lambda>c. if c = CHR '' '' then ''+'' else percent_encode [c]) s)"
  by (induction s) (auto simp: shouldEscape_def isAlnum_def Let_def)

lemma QueryEscape_no_space:
  "CHR '' '' \<notin> set s \<Longrightarrow> QueryEscape s = percent_encode s"
  by (induction s) (auto simp: shouldEscape_def)

lemma Set_httpGetters_fold:
  "fold (\<lambda>peer g. g(peer \<mapsto> f peer)) ps g0 x = (if x \<in> set ps then Some (f x) else g0 x)"
  by (induction ps arbitrary: g0) auto

lemma Set_httpGetters:
  assumes "Set p ps = Inr p'"
  shows "httpGetters p' peer = Some h \<longleftrightarrow>
     peer \<in> set ps \<and> (\<exists>codec. Codec (opts p) = Some codec
        \<and> h = \<lparr>baseURL = peer @ BasePath (opts p), decoder = Decode codec\<rparr>)"
proof (cases "Codec (opts p)")
  case None
  with assms show ?thesis by (auto simp: Set_def Let_def split: if_splits)
next
  case (Some codec)
  with assms have "httpGetters p' =
      fold (\<lambda>peer g. g(peer \<mapsto> \<lparr>baseURL = peer @ BasePath (opts p), decoder = Decode codec\<rparr>))
        ps Map.empty"
    by (auto simp: Set_def Let_def)
  then show ?thesis using Some by (auto simp: Set_httpGetters_fold)
qed

text \<open>
  For a getter that \<open>Set\<close> installed for a peer, and a group name and a key without a
  space, the URL requested is the peer, the base path, the percent-encoded group, a slash
  and the percent-encoded key.
\<close>

lemma httpGetter_URL_without_space:
  assumes "Set p ps = Inr p'" and "httpGetters p' peer = Some h"
    and "CHR '' '' \<notin> set grp" and "CHR '' '' \<notin> set k"
  shows "httpGetter_URL h grp k
     = peer @ BasePath (opts p) @ percent_encode grp @ ''/'' @ percent_encode k"
proof -
  from Set_httpGetters[OF assms(1), of peer h] assms(2)
  have "baseURL h = peer @ BasePath (opts p)" by auto
  then show ?thesis
    using assms(3,4) by (simp add: httpGetter_URL_def QueryEscape_no_space)
qed

lemma char_of_2B: "char_of (43 :: nat) = CHR ''+''"
  by code_simp

text \<open>
  Claim C5 (the group and the key are percent-encoded in the URL) fails at a key with a
  space. For the key \<open>a b\<close> the client requests \<open>.../g/a+b\<close>, where the percent-encoding
  of the key is \<open>a%20b\<close>: the key is escaped for a query component and put into the path.
  The server reads the path of that request as \<open>/_yocache/g/a+b\<close>, the plus sign
  unchanged, and serves the key \<open>a+b\<close>; the key \<open>a+b\<close> itself is requested as
  \<open>.../g/a%2Bb\<close> and read as the same path, so the two keys are one key at the owner.
\<close>

theorem httpGetter_URL_not_percent_encoded:
  "httpGetter_URL \<lparr>baseURL = ''http://b/_yocache/'', decoder = RawCodec_Decode\<rparr> ''g'' ''a b''
     = ''http://b/_yocache/g/a+b''
   \<and> ''http://b/_yocache/'' @ percent_encode ''g'' @ ''/'' @ percent_encode ''a b''
     = ''http://b/_yocache/g/a%20b''
   \<and> httpGetter_URL \<lparr>baseURL = ''http://b/_yocache/'', decoder = RawCodec_Decode\<rparr> ''g'' ''a b''
     \<noteq> ''http://b/_yocache/'' @ percent_encode ''g'' @ ''/'' @ percent_encode ''a b''
   \<and> unescape_path ''/_yocache/g/a+b'' = Some ''/_yocache/g/a+b''
   \<and> httpGetter_URL \<lparr>baseURL = ''http://b/_yocache/'', decoder = RawCodec_Decode\<rparr> ''g'' ''a+b''
     = ''http://b/_yocache/g/a%2Bb''
   \<and> unescape_path ''/_yocache/g/a%2Bb'' = Some ''/_yocache/g/a+b''
   \<and> ServeHTTP example_pool example_groups \<lparr>Method = ''GET'', URL_Path = ''/_yocache/g/a+b''\<rparr>
       = Inr \<lparr>status = 200, header = [(''Content-Type'', ''application/octet-stream'')],
              body = bytes_of ''a+b''\<rparr>"
proof -
  let ?h = "\<lparr>baseURL = ''http://b/_yocache/'', decoder = RawCodec_Decode\<rparr>"
  have u1: "httpGetter_URL ?h ''g'' ''a b'' = ''http://b/_yocache/g/a+b''"
    by (simp add: httpGetter_URL_def shouldEscape_def isAlnum_def Let_def)
  have e1: "''http://b/_yocache/'' @ percent_encode ''g'' @ ''/'' @ percent_encode ''a b''
      = ''http://b/_yocache/g/a%20b''"
    by (simp add: isAlnum_def pct_def upperhex_def Let_def)
  have u2: "httpGetter_URL ?h ''g'' ''a+b'' = ''http://b/_yocache/g/a%2Bb''"
    by (simp add: httpGetter_URL_def shouldEscape_def isAlnum_def pct_def upperhex_def Let_def)
  have p1: "unescape_path ''/_yocache/g/a+b'' = Some ''/_yocache/g/a+b''"
    by simp
  have p2: "unescape_path ''/_yocache/g/a%2Bb'' = Some ''/_yocache/g/a+b''"
    by (simp add: unhex_def Let_def char_of_2B)
  have base: "BasePath (opts example_pool) = ''/_yocache/''"
    by (simp add: example_pool_def NewHTTPPool_def example_options_def defaultBasePath_def Let_def)
  have codec: "Codec (opts example_pool) = Some RawCodec"
    by (simp add: example_pool_def NewHTTPPool_def example_options_def Let_def)
  let ?r = "\<lparr>Method = ''GET'', URL_Path = ''/_yocache/g/a+b''\<rparr>"
  have ns: "CHR ''/'' \<notin> set ''g''" by simp
  have p: "HasPrefix (URL_Path ?r) (BasePath (opts example_pool))"
    by (simp add: base HasPrefix_def)
  have d: "drop (length (BasePath (opts example_pool))) (URL_Path ?r) = ''g'' @ ''/'' @ ''a+b''"
    by (simp add: base)
  have s: "ServeHTTP example_pool example_groups ?r
      = Inr \<lparr>status = 200, header = [(''Content-Type'', ''application/octet-stream'')],
             body = bytes_of ''a+b''\<rparr>"
    unfolding ServeHTTP_group_key[OF p d ns, of example_groups]
    by (simp add: example_groups_def example_group_def codec RawCodec_def RawCodec_Encode_def
        ByteSlice_def StatusOK_def)
  from u1 e1 have n: "httpGetter_URL ?h ''g'' ''a b''
      \<noteq> ''http://b/_yocache/'' @ percent_encode ''g'' @ ''/'' @ percent_encode ''a b''"
    by simp
  from u1 e1 n p1 u2 p2 s show ?thesis by (intro conjI)
qed

lemma Itoa_0: "Itoa 0 = ''0''"
  by (simp add: Itoa.simps digit_def)

lemma Itoa_1: "Itoa (Suc 0) = ''1''"
  by (simp add: Itoa.simps digit_def)

lemma ring_pool_Set: "Set ring_pool [''A'', ''BB''] = Inr ring_pool_set"
proof -
  have o: "opts ring_pool
      = \<lparr>BasePath = ''/_yocache/'', Replicas = 2, HashFn = Some length_hash,
         Codec = Some RawCodec\<rparr>"
    by (simp add: ring_pool_def NewHTTPPool_def example_options_def defaultBasePath_def Let_def)
  have u: "[0 ..< 2] = [0, Suc 0]" by (simp add: upt_rec)
  have r: "consistenthash_Add (consistenthash_New 2 (Some length_hash)) [''A'', ''BB'']
      = \<lparr>hash = length_hash, replicas = 2,
         ring = [(2, ''A''), (2, ''A''), (3, ''BB''), (3, ''BB'')]\<rparr>"
    by (simp add: consistenthash_Add_def consistenthash_New_def u Itoa_0 Itoa_1
        length_hash_def bytes_of_def)
  show ?thesis
    by (simp add: Set_def o r ring_pool_set_def Let_def)
qed

subsection \<open>Picking a peer\<close>

lemma consistenthash_Get_owner:
  "\<exists>owner. consistenthash_Get nil_Get (Some m) k = Inr owner
      \<and> (owner = '''' \<or> owner \<in> snd ` set (ring m))
      \<and> (ring m = [] \<longrightarrow> owner = '''')"
proof (cases "ring m = []")
  case True
  then show ?thesis by (simp add: consistenthash_Get_def)
next
  case False
  show ?thesis
  proof (cases "find (\<lambda>(h, p). unat (hash m (bytes_of k)) \<le> h) (ring m)")
    case None
    with False show ?thesis by (simp add: consistenthash_Get_def)
  next
    case (Some hp)
    then have "hp \<in> set (ring m)" by (metis find_Some_iff nth_mem)
    with Some False show ?thesis
      by (cases hp) (auto simp: consistenthash_Get_def intro: rev_image_eqI)
  qed
qed

lemma ring_Add_peers:
  "snd ` set (ring (consistenthash_Add (consistenthash_New n fn) ps)) \<subseteq> set ps"
  by (auto simp: consistenthash_Add_def consistenthash_New_def)

lemma Set_peers:
  assumes "Set p ps = Inr p'"
  shows "peers p' = Some (consistenthash_Add (consistenthash_New (Replicas (opts p)) (HashFn (opts p))) ps)
     \<and> self p' = self p \<and> opts p' = opts p \<and> (ps \<noteq> [] \<longrightarrow> Codec (opts p) \<noteq> None)"
  using assms by (auto simp: Set_def Let_def split: option.splits if_splits)

text \<open>
  Claim C6. On a pool whose peers were set, \<open>PickPeer\<close> returns ok = true exactly when
  the peer that the ring gives for the key is neither the empty string nor the pool's
  own identifier, and then the getter is the one installed for that peer, with the
  peer's base URL; otherwise, when the owner is the pool itself or the ring is empty
  (the ring gives the empty string), it returns nil and ok = false.
\<close>

theorem PickPeer_owner:
  assumes "Set p ps = Inr p'"
  shows "\<exists>owner g ok.
       consistenthash_Get nil_Get (peers p') k = Inr owner
     \<and> PickPeer nil_Get p' k = Inr (g, ok)
     \<and> (ok \<longleftrightarrow> owner \<noteq> '''' \<and> owner \<noteq> self p')
     \<and> (ok \<longrightarrow> (\<exists>h. g = Some h \<and> httpGetters p' owner = Some h
                   \<and> baseURL h = owner @ BasePath (opts p')))
     \<and> (\<not> ok \<longrightarrow> g = None)
     \<and> (ps = [] \<longrightarrow> owner = '''')"
proof -
  let ?m = "consistenthash_Add (consistenthash_New (Replicas (opts p)) (HashFn (opts p))) ps"
  from Set_peers[OF assms] have pe: "peers p' = Some ?m" and o: "opts p' = opts p"
    and c: "ps \<noteq> [] \<longrightarrow> Codec (opts p) \<noteq> None"
    by simp_all
  obtain owner where ow: "consistenthash_Get nil_Get (Some ?m) k = Inr owner"
    "owner = '''' \<or> owner \<in> snd ` set (ring ?m)" "ring ?m = [] \<longrightarrow> owner = ''''"
    using consistenthash_Get_owner[of nil_Get ?m k] by blast
  from ow(2) ring_Add_peers[of "Replicas (opts p)" "HashFn (opts p)" ps]
  have mem: "owner = '''' \<or> owner \<in> set ps" by blast
  have e: "ps = [] \<longrightarrow> owner = ''''" using mem by auto
  show ?thesis
  proof (cases "owner \<noteq> '''' \<and> owner \<noteq> self p'")
    case True
    with mem have in_ps: "owner \<in> set ps" by simp
    then obtain codec where "Codec (opts p) = Some codec" using c by auto
    with in_ps Set_httpGetters[OF assms, of owner
        "\<lparr>baseURL = owner @ BasePath (opts p), decoder = Decode codec\<rparr>"]
    have "httpGetters p' owner = Some \<lparr>baseURL = owner @ BasePath (opts p), decoder = Decode codec\<rparr>"
      by simp
    with True ow(1) pe o e show ?thesis by (simp add: PickPeer_def)
  next
    case False
    with ow(1) pe e show ?thesis by (auto simp: PickPeer_def)
  qed
qed

theorem PickPeer_owner_witness:
  "Set ring_pool [''A'', ''BB''] = Inr ring_pool_set
   \<and> PickPeer (\<lambda>k. Inl nil_dereference) ring_pool_set ''kkk''
       = Inr (Some \<lparr>baseURL = ''BB/_yocache/'', decoder = Decode RawCodec\<rparr>, True)
   \<and> PickPeer (\<lambda>k. Inl nil_dereference) ring_pool_set ''k'' = Inr (None, False)"
proof -
  have s: "Set ring_pool [''A'', ''BB''] = Inr ring_pool_set"
    by (rule ring_pool_Set)
  have slf: "self ring_pool_set = ''A''"
    by (simp add: ring_pool_set_def ring_pool_def NewHTTPPool_def Let_def)
  have g1: "consistenthash_Get (\<lambda>k. Inl nil_dereference) (peers ring_pool_set) ''kkk'' = Inr ''BB''"
    by (simp add: ring_pool_set_def consistenthash_Get_def length_hash_def bytes_of_def)
  have g2: "consistenthash_Get (\<lambda>k. Inl nil_dereference) (peers ring_pool_set) ''k'' = Inr ''A''"
    by (simp add: ring_pool_set_def consistenthash_Get_def length_hash_def bytes_of_def)
  have h: "httpGetters ring_pool_set ''BB''
      = Some \<lparr>baseURL = ''BB/_yocache/'', decoder = Decode RawCodec\<rparr>"
    by (simp add: ring_pool_set_def)
  from PickPeer_owner[OF s, of "\<lambda>k. Inl nil_dereference" "''kkk''"] g1 slf h
  have a: "PickPeer (\<lambda>k. Inl nil_dereference) ring_pool_set ''kkk''
      = Inr (Some \<lparr>baseURL = ''BB/_yocache/'', decoder = Decode RawCodec\<rparr>, True)"
    by auto
  from PickPeer_owner[OF s, of "\<lambda>k. Inl nil_dereference" "''k''"] g2 slf
  have b: "PickPeer (\<lambda>k. Inl nil_dereference) ring_pool_set ''k'' = Inr (None, False)"
    by auto
  from s a b show ?thesis by blast
qed

text \<open>
  \<open>PickPeer\<close> hands the ring pointer to \<open>Get\<close> without looking at it: on a pool whose
  ring pointer is nil, as \<open>NewHTTPPool\<close> leaves it, the outcome is that of \<open>Get\<close> on a
  nil receiver.
\<close>

lemma PickPeer_nil_ring:
  "peers (NewHTTPPool slf options) = None
   \<and> (peers p = None \<longrightarrow>
        PickPeer nil_Get p k =
          (case nil_Get k of
             Inl pn \<Rightarrow> Inl pn
           | Inr peer \<Rightarrow>
               if peer \<noteq> '''' \<and> peer \<noteq> self p then Inr (httpGetters p peer, True)
               else Inr (None, False)))"
  by (simp add: PickPeer_def consistenthash_Get_def NewHTTPPool_def Let_def)

end
